theory Spec2Isabelle
  imports Complex_Main
begin

section \<open>The Izhikevich network engine of Dynamical\_Complexity.py\<close>

text \<open>
  The class \<open>IzNetwork\<close> is embedded as a record of its attributes and each method as a
  function from the object before the call to the outcome of the call and the object
  after it. A numpy vector is a list, a numpy matrix the list of its rows, a float64 a
  \<open>real\<close>, a Python integer an \<open>int\<close> or a \<open>nat\<close>. An attribute that exists only after
  its setter has run (\<open>_D\<close>, \<open>_W\<close>, \<open>_a\<close>, \<open>_b\<close>, \<open>_c\<close>, \<open>_d\<close>) is an \<open>option\<close>. The
  attribute \<open>self._X\<close> is the field \<open>iz_X\<close>, and so on for the others.

  An integer array carries its dtype, and arithmetic on it is done in that dtype, by the
  rules of numpy 2: the array's own operations wrap around silently, and a Python integer
  that meets the array is cast to the dtype first, with \<open>OverflowError\<close> when it does not
  fit. An array argument is two-dimensional: a list of rows of unequal lengths stands for
  no array, and the shape tests of the setters reject it.
\<close>

subsection \<open>Data\<close>

datatype error =
    AttributeError
  | IndexError
  | ZeroDivisionError
  | OverflowError
  | ValueError
  | Exception string

text \<open>
  The integer dtypes of numpy, their ranges, and the value that the dtype keeps of an
  integer: the one in its range that is congruent modulo \<open>2 ^ bits\<close>.
\<close>

datatype int_dtype = Int8 | Int16 | Int32 | Int64 | UInt8 | UInt16 | UInt32 | UInt64

fun dtype_bits :: "int_dtype \<Rightarrow> nat" where
  "dtype_bits Int8 = 8"
| "dtype_bits Int16 = 16"
| "dtype_bits Int32 = 32"
| "dtype_bits Int64 = 64"
| "dtype_bits UInt8 = 8"
| "dtype_bits UInt16 = 16"
| "dtype_bits UInt32 = 32"
| "dtype_bits UInt64 = 64"

fun dtype_signed :: "int_dtype \<Rightarrow> bool" where
  "dtype_signed Int8 = True"
| "dtype_signed Int16 = True"
| "dtype_signed Int32 = True"
| "dtype_signed Int64 = True"
| "dtype_signed UInt8 = False"
| "dtype_signed UInt16 = False"
| "dtype_signed UInt32 = False"
| "dtype_signed UInt64 = False"

definition dtype_min :: "int_dtype \<Rightarrow> int" where
  "dtype_min dt = (if dtype_signed dt then - (2 ^ (dtype_bits dt - 1)) else 0)"

definition dtype_max :: "int_dtype \<Rightarrow> int" where
  "dtype_max dt =
     (if dtype_signed dt then 2 ^ (dtype_bits dt - 1) - 1 else 2 ^ dtype_bits dt - 1)"

definition wrap :: "int_dtype \<Rightarrow> int \<Rightarrow> int" where
  "wrap dt x = (x - dtype_min dt) mod 2 ^ dtype_bits dt + dtype_min dt"

record IzNetwork =
  iz_Dmax :: nat
  iz_N :: nat
  iz_X :: "real list list"
  iz_I :: "real list"
  iz_cursor :: nat
  iz_lastFired :: "bool list"
  iz_dt :: real
  iz_v :: "real list"
  iz_u :: "real list"
  iz_D :: "(int_dtype \<times> int list list) option"
  iz_W :: "real list list option"
  iz_a :: "real list option"
  iz_b :: "real list option"
  iz_c :: "real list option"
  iz_d :: "real list option"

text \<open>
  The argument of \<open>setDelays\<close> is an array of any element type; the setter looks at its
  \<open>dtype\<close>, and \<open>self._D = D\<close> keeps the array with it.
\<close>

datatype ndarray =
    IntArray int_dtype "int list list"
  | FloatArray "real list list"
  | BoolArray "bool list list"

text \<open>\<open>M.shape == (r, c)\<close> for a matrix given as the list of its rows.\<close>

definition has_shape :: "'a list list \<Rightarrow> nat \<Rightarrow> nat \<Rightarrow> bool" where
  "has_shape M r c = (length M = r \<and> list_all (\<lambda>row. length row = c) M)"

fun ndarray_has_shape :: "ndarray \<Rightarrow> nat \<Rightarrow> nat \<Rightarrow> bool" where
  "ndarray_has_shape (IntArray dt M) r c = has_shape M r c"
| "ndarray_has_shape (FloatArray M) r c = has_shape M r c"
| "ndarray_has_shape (BoolArray M) r c = has_shape M r c"

subsection \<open>Construction and configuration\<close>

text \<open>
  \<open>__init__(N, Dmax)\<close>. \<open>np.zeros\<close> raises \<open>ValueError\<close> on a negative dimension; nothing
  else is checked. \<open>self._Dmax\<close> holds \<open>Dmax + 1\<close>, the number of rows of \<open>self._X\<close>.
\<close>

definition IzNetwork_init :: "int \<Rightarrow> int \<Rightarrow> error + IzNetwork" where
  "IzNetwork_init n dmax =
     (if dmax + 1 < 0 \<or> n < 0 then Inl ValueError
      else Inr \<lparr> iz_Dmax = nat (dmax + 1),
                 iz_N = nat n,
                 iz_X = replicate (nat (dmax + 1)) (replicate (nat n) 0),
                 iz_I = replicate (nat n) 0,
                 iz_cursor = 0,
                 iz_lastFired = replicate (nat n) False,
                 iz_dt = 1 / 10,
                 iz_v = replicate (nat n) (- 65),
                 iz_u = replicate (nat n) (- 1),
                 iz_D = None, iz_W = None,
                 iz_a = None, iz_b = None, iz_c = None, iz_d = None \<rparr>)"

text \<open>
  \<open>setDelays(D)\<close>: the three tests of the source in their order, then the assignment.
  \<open>(D < 0.5).any()\<close> is only reached for an integer array.
\<close>

definition setDelays :: "ndarray \<Rightarrow> IzNetwork \<Rightarrow> (error + unit) \<times> IzNetwork" where
  "setDelays D s =
     (if \<not> ndarray_has_shape D (iz_N s) (iz_N s)
        then (Inl (Exception ''Delay matrix must be N-by-N.''), s)
      else (case D of
          IntArray dt M \<Rightarrow>
            (if list_ex (list_ex (\<lambda>x. real_of_int x < 1 / 2)) M
               then (Inl (Exception ''Delays must be strictly positive.''), s)
             else (Inr (), s\<lparr>iz_D := Some (dt, M)\<rparr>))
        | _ \<Rightarrow> (Inl (Exception ''Delays must be integer numbers.''), s)))"

definition setWeights :: "real list list \<Rightarrow> IzNetwork \<Rightarrow> (error + unit) \<times> IzNetwork" where
  "setWeights W s =
     (if \<not> has_shape W (iz_N s) (iz_N s)
        then (Inl (Exception ''Weight matrix must be N-by-N.''), s)
      else (Inr (), s\<lparr>iz_W := Some W\<rparr>))"

definition setCurrent :: "real list \<Rightarrow> IzNetwork \<Rightarrow> (error + unit) \<times> IzNetwork" where
  "setCurrent I s =
     (if length I \<noteq> iz_N s
        then (Inl (Exception ''Current vector must be of size N.''), s)
      else (Inr (), s\<lparr>iz_I := I\<rparr>))"

definition setParameters ::
  "real list \<Rightarrow> real list \<Rightarrow> real list \<Rightarrow> real list \<Rightarrow> IzNetwork \<Rightarrow> (error + unit) \<times> IzNetwork" where
  "setParameters a b c d s =
     (if (length a, length b, length c, length d) \<noteq> (iz_N s, iz_N s, iz_N s, iz_N s)
        then (Inl (Exception ''Parameter vectors must be of size N.''), s)
      else (Inr (), s\<lparr>iz_a := Some a, iz_b := Some b, iz_c := Some c, iz_d := Some d\<rparr>))"

definition getState :: "IzNetwork \<Rightarrow> real list \<times> real list" where
  "getState s = (iz_v s, iz_u s)"

subsection \<open>One millisecond: \<open>update\<close>\<close>

text \<open>
  Lines 150 and 151: \<open>self.v[mask] = self._c[mask]\<close> and \<open>self.u[mask] += self._d[mask]\<close>
  with \<open>mask = self._lastFired\<close>.
\<close>

definition reset_v :: "bool list \<Rightarrow> real list \<Rightarrow> real list \<Rightarrow> real list" where
  "reset_v m c v = map (\<lambda>j. if m ! j then c ! j else v ! j) [0..<length v]"

definition reset_u :: "bool list \<Rightarrow> real list \<Rightarrow> real list \<Rightarrow> real list" where
  "reset_u m d u = map (\<lambda>j. if m ! j then u ! j + d ! j else u ! j) [0..<length u]"

text \<open>Line 154: \<open>I = self._I + self._X[self._cursor % self._Dmax, :]\<close>.\<close>

definition total_current :: "IzNetwork \<Rightarrow> real list" where
  "total_current s =
     map (\<lambda>j. iz_I s ! j + iz_X s ! (iz_cursor s mod iz_Dmax s) ! j) [0..<iz_N s]"

text \<open>
  Lines 161 to 166, one pass of the loop body on the triple \<open>(self.v, self.u, fired)\<close>.
  The local \<open>v\<close> and \<open>u\<close> are the values before the pass, so the new \<open>u\<close> is computed
  from the old \<open>v\<close>. Line 164 alone is \<open>euler_v\<close>.
\<close>

definition euler_v :: "real \<Rightarrow> real list \<Rightarrow> bool list \<Rightarrow> real list \<Rightarrow> real list \<Rightarrow> real list" where
  "euler_v h I fired v u =
     map (\<lambda>j. if fired ! j then v ! j
              else v ! j + h * (0.04 * (v ! j) * (v ! j) + 5 * (v ! j) + 140 - u ! j + I ! j))
         [0..<length v]"

definition euler_u ::
  "real \<Rightarrow> real list \<Rightarrow> real list \<Rightarrow> bool list \<Rightarrow> real list \<Rightarrow> real list \<Rightarrow> real list" where
  "euler_u h a b fired v u =
     map (\<lambda>j. if fired ! j then u ! j
              else u ! j + h * (a ! j * (b ! j * (v ! j) - u ! j)))
         [0..<length u]"

definition substep ::
  "real \<Rightarrow> real list \<Rightarrow> real list \<Rightarrow> real list \<Rightarrow>
   real list \<times> real list \<times> bool list \<Rightarrow> real list \<times> real list \<times> bool list" where
  "substep h a b I st =
     (case st of (v, u, fired) \<Rightarrow>
        (let v' = euler_v h I fired v u;
             u' = euler_u h a b fired v u;
             fired' = map (\<lambda>j. fired ! j \<or> v' ! j > 30) [0..<length fired]
         in (v', u', fired')))"

text \<open>\<open>for _ in range(n)\<close> around the loop body.\<close>

fun euler_loop ::
  "nat \<Rightarrow> real \<Rightarrow> real list \<Rightarrow> real list \<Rightarrow> real list \<Rightarrow>
   real list \<times> real list \<times> bool list \<Rightarrow> real list \<times> real list \<times> bool list" where
  "euler_loop 0 h a b I st = st"
| "euler_loop (Suc n) h a b I st = euler_loop n h a b I (substep h a b I st)"

text \<open>\<open>int(1/self._dt)\<close>: \<open>int\<close> truncates towards zero.\<close>

definition substeps :: "IzNetwork \<Rightarrow> nat" where
  "substeps s = nat \<lfloor>1 / iz_dt s\<rfloor>"

text \<open>
  Line 183 for one firing neuron \<open>i\<close>:
  \<open>self._X[(self._cursor + self._D[i, :]) % self._Dmax, range(self._N)] += self._W[i, :]\<close>.
  The row index is computed in the dtype of \<open>self._D\<close>: the sum \<open>self._cursor + self._D[i, j]\<close>
  wraps around in it, and \<open>%\<close> then has the sign of the divisor, as \<open>mod\<close> on \<open>int\<close> has.
  numpy reads the \<open>N\<close> addressed cells, adds, and writes the \<open>N\<close> sums back.
\<close>

definition slot_of :: "int_dtype \<Rightarrow> nat \<Rightarrow> nat \<Rightarrow> int \<Rightarrow> nat" where
  "slot_of dt cursor dmax dl = nat (wrap dt (int cursor + dl) mod int dmax)"

definition scatter_row ::
  "int_dtype \<Rightarrow> nat \<Rightarrow> nat \<Rightarrow> nat \<Rightarrow> int list \<Rightarrow> real list \<Rightarrow> real list list \<Rightarrow>
   real list list" where
  "scatter_row dt n cursor dmax Di Wi X =
     (let rows = map (\<lambda>j. slot_of dt cursor dmax (Di ! j)) [0..<n];
          vals = map (\<lambda>j. X ! (rows ! j) ! j + Wi ! j) [0..<n]
      in fold (\<lambda>j Y. Y[rows ! j := (Y ! (rows ! j))[j := vals ! j]]) [0..<n] X)"

text \<open>
  Lines 182 and 183, \<open>for i in fired_idx\<close>. In each pass the index is computed first:
  \<open>self._D\<close> is looked up, then the Python integers \<open>self._cursor\<close> and \<open>self._Dmax\<close> are
  cast to its dtype, each with \<open>OverflowError\<close> when it is beyond the dtype's largest
  value. \<open>self._W\<close> is looked up next, and only then is \<open>self._X\<close> written.
\<close>

fun deliver :: "nat list \<Rightarrow> IzNetwork \<Rightarrow> (error + unit) \<times> IzNetwork" where
  "deliver [] s = (Inr (), s)"
| "deliver (i # rest) s =
     (case iz_D s of
        None \<Rightarrow> (Inl AttributeError, s)
      | Some A \<Rightarrow>
          if dtype_max (fst A) < int (iz_cursor s) then (Inl OverflowError, s)
          else if dtype_max (fst A) < int (iz_Dmax s) then (Inl OverflowError, s)
          else
          (case iz_W s of
             None \<Rightarrow> (Inl AttributeError, s)
           | Some W \<Rightarrow>
               deliver rest
                 (s\<lparr>iz_X := scatter_row (fst A) (iz_N s) (iz_cursor s) (iz_Dmax s)
                              (snd A ! i) (W ! i) (iz_X s)\<rparr>)))"

text \<open>
  Lines 171 to 189, from \<open>fired_idx = np.where(fired)[0]\<close> to the \<open>return\<close>, on the
  object as the integration loop left it.
\<close>

definition fired_idx_of :: "bool list \<Rightarrow> nat list" where
  "fired_idx_of fired = filter (\<lambda>j. fired ! j) [0..<length fired]"

definition clamp_v :: "bool list \<Rightarrow> real list \<Rightarrow> real list" where
  "clamp_v fired v = map (\<lambda>j. if fired ! j then 30 else v ! j) [0..<length v]"

definition finish :: "bool list \<Rightarrow> IzNetwork \<Rightarrow> (error + nat list) \<times> IzNetwork" where
  "finish fired s =
     (let fired_idx = fired_idx_of fired;
          s1 = s\<lparr>iz_lastFired := fired, iz_v := clamp_v fired (iz_v s)\<rparr>;
          s2 = s1\<lparr>iz_I := replicate (iz_N s1) 0\<rparr>
      in (case deliver fired_idx s2 of
            (Inl e, s3) \<Rightarrow> (Inl e, s3)
          | (Inr _, s3) \<Rightarrow>
              (Inr fired_idx,
               s3\<lparr>iz_X := (iz_X s3)[iz_cursor s3 mod iz_Dmax s3 := replicate (iz_N s3) 0],
                  iz_cursor := iz_cursor s3 + 1\<rparr>)))"

text \<open>
  \<open>update()\<close>. A missing attribute raises \<open>AttributeError\<close> where the source first reads
  it, with the object as mutated up to there; \<open>% self._Dmax\<close> raises
  \<open>ZeroDivisionError\<close> when the buffer has no row, and so does \<open>1/self._dt\<close> for a zero
  step. If \<open>_a\<close> or \<open>_b\<close> is missing, line 164 of the first pass has already run. With \<open>N = 0\<close> the constructor's
  \<open>np.array([False]*N)\<close> is the empty array of dtype float64, which numpy refuses as an
  index: line 150 raises \<open>IndexError\<close> once it has found \<open>self._c\<close>.
\<close>

definition update :: "IzNetwork \<Rightarrow> (error + nat list) \<times> IzNetwork" where
  "update s =
     (case iz_c s of
        None \<Rightarrow> (Inl AttributeError, s)
      | Some c \<Rightarrow>
      if iz_N s = 0 then (Inl IndexError, s) else
     (let s1 = s\<lparr>iz_v := reset_v (iz_lastFired s) c (iz_v s)\<rparr> in
      case iz_d s1 of
        None \<Rightarrow> (Inl AttributeError, s1)
      | Some d \<Rightarrow>
     (let s2 = s1\<lparr>iz_u := reset_u (iz_lastFired s1) d (iz_u s1)\<rparr> in
      if iz_Dmax s2 = 0 then (Inl ZeroDivisionError, s2)
      else
     (let I = total_current s2;
          fired = replicate (iz_N s2) False in
      if iz_dt s2 = 0 then (Inl ZeroDivisionError, s2)
      else if substeps s2 = 0 then finish fired s2
      else
      case (iz_a s2, iz_b s2) of
        (Some a, Some b) \<Rightarrow>
          (case euler_loop (substeps s2) (iz_dt s2) a b I (iz_v s2, iz_u s2, fired) of
             (v', u', fired') \<Rightarrow> finish fired' (s2\<lparr>iz_v := v', iz_u := u'\<rparr>))
      | _ \<Rightarrow> (Inl AttributeError, s2\<lparr>iz_v := euler_v (iz_dt s2) I fired (iz_v s2) (iz_u s2)\<rparr>)))))"

subsection \<open>The driver\<close>

text \<open>
  \<open>simulate_network\<close> builds the engine with \<open>IzNetwork(N, Dmax)\<close>, \<open>setParameters\<close>,
  \<open>setWeights\<close> and \<open>setDelays\<close> in this order, and then calls \<open>setCurrent(I)\<close> and
  \<open>update()\<close> once per millisecond. \<open>new_network\<close> is the first part, \<open>run_steps\<close> the
  loop, with the firing sets of the calls collected in order.
\<close>

definition new_network ::
  "int \<Rightarrow> int \<Rightarrow> real list \<Rightarrow> real list \<Rightarrow> real list \<Rightarrow> real list \<Rightarrow>
   real list list \<Rightarrow> ndarray \<Rightarrow> error + IzNetwork" where
  "new_network n dmax a b c d W D =
     (case IzNetwork_init n dmax of
        Inl e \<Rightarrow> Inl e
      | Inr s0 \<Rightarrow>
          (case setParameters a b c d s0 of
             (Inl e, s1) \<Rightarrow> Inl e
           | (Inr _, s1) \<Rightarrow>
               (case setWeights W s1 of
                  (Inl e, s2) \<Rightarrow> Inl e
                | (Inr _, s2) \<Rightarrow>
                    (case setDelays D s2 of
                       (Inl e, s3) \<Rightarrow> Inl e
                     | (Inr _, s3) \<Rightarrow> Inr s3))))"

fun run_steps :: "IzNetwork \<Rightarrow> real list list \<Rightarrow> (error + nat list list) \<times> IzNetwork" where
  "run_steps s [] = (Inr [], s)"
| "run_steps s (I # Is) =
     (case setCurrent I s of
        (Inl e, s1) \<Rightarrow> (Inl e, s1)
      | (Inr _, s1) \<Rightarrow>
          (case update s1 of
             (Inl e, s2) \<Rightarrow> (Inl e, s2)
           | (Inr f, s2) \<Rightarrow>
               (case run_steps s2 Is of
                  (Inl e, s3) \<Rightarrow> (Inl e, s3)
                | (Inr fs, s3) \<Rightarrow> (Inr (f # fs), s3))))"

subsection \<open>Notions used by the properties\<close>

text \<open>
  The shape invariant of the object: the lengths the constructor gives the arrays and the
  setters require of their arguments.
\<close>

definition invar :: "IzNetwork \<Rightarrow> bool" where
  "invar s =
     (has_shape (iz_X s) (iz_Dmax s) (iz_N s) \<and>
      length (iz_I s) = iz_N s \<and>
      length (iz_lastFired s) = iz_N s \<and>
      length (iz_v s) = iz_N s \<and>
      length (iz_u s) = iz_N s \<and>
      iz_dt s = 1 / 10 \<and>
      (case iz_D s of None \<Rightarrow> True
       | Some A \<Rightarrow>
           has_shape (snd A) (iz_N s) (iz_N s) \<and> list_all (list_all (\<lambda>x. 1 \<le> x)) (snd A)) \<and>
      (case iz_W s of None \<Rightarrow> True | Some W \<Rightarrow> has_shape W (iz_N s) (iz_N s)) \<and>
      (case iz_a s of None \<Rightarrow> True | Some a \<Rightarrow> length a = iz_N s) \<and>
      (case iz_b s of None \<Rightarrow> True | Some b \<Rightarrow> length b = iz_N s) \<and>
      (case iz_c s of None \<Rightarrow> True | Some c \<Rightarrow> length c = iz_N s) \<and>
      (case iz_d s of None \<Rightarrow> True | Some d \<Rightarrow> length d = iz_N s))"

text \<open>
  The triple \<open>(self.v, self.u, fired)\<close> after \<open>k\<close> passes of the integration loop in the
  call \<open>update()\<close> on \<open>s\<close>.
\<close>

definition loop_state ::
  "IzNetwork \<Rightarrow> real list \<Rightarrow> real list \<Rightarrow> real list \<Rightarrow> real list \<Rightarrow> nat \<Rightarrow>
   real list \<times> real list \<times> bool list" where
  "loop_state s a b c d k =
     euler_loop k (iz_dt s) a b (total_current s)
       (reset_v (iz_lastFired s) c (iz_v s), reset_u (iz_lastFired s) d (iz_u s),
        replicate (iz_N s) False)"

text \<open>
  The cast of \<open>self._cursor\<close> and \<open>self._Dmax\<close> to the dtype of the delay array succeeds.
\<close>

definition fits :: "int_dtype \<Rightarrow> IzNetwork \<Rightarrow> bool" where
  "fits dt s = (int (iz_cursor s) \<le> dtype_max dt \<and> int (iz_Dmax s) \<le> dtype_max dt)"


text \<open>
  The row \<open>(cursor + D[i,j]) mod (Dmax + 1)\<close> with the sum taken in the integers: the row
  that line 183 addresses as long as the sum stays within the dtype.
\<close>

definition slot_exact :: "nat \<Rightarrow> nat \<Rightarrow> int \<Rightarrow> nat" where
  "slot_exact cur m dl = nat ((int cur + dl) mod int m)"



text \<open>
  One neuron in the integration loop: a pass of the loop body and \<open>n\<close> passes, on the
  neuron's own \<open>(v, u, fired)\<close>, with its parameters \<open>a\<close>, \<open>b\<close> and its input current \<open>I\<close>.
\<close>

definition neuron_substep ::
  "real \<Rightarrow> real \<Rightarrow> real \<Rightarrow> real \<Rightarrow> real \<times> real \<times> bool \<Rightarrow> real \<times> real \<times> bool" where
  "neuron_substep h a b I st =
     (case st of (v, u, fired) \<Rightarrow>
        if fired then (v, u, True)
        else (let v' = v + h * (0.04 * v * v + 5 * v + 140 - u + I);
                  u' = u + h * (a * (b * v - u))
              in (v', u', v' > 30)))"

fun neuron_loop ::
  "nat \<Rightarrow> real \<Rightarrow> real \<Rightarrow> real \<Rightarrow> real \<Rightarrow> real \<times> real \<times> bool \<Rightarrow> real \<times> real \<times> bool" where
  "neuron_loop 0 h a b I st = st"
| "neuron_loop (Suc n) h a b I st = neuron_loop n h a b I (neuron_substep h a b I st)"

subsection \<open>A network of two neurons\<close>

text \<open>
  Two regular-spiking neurons with one connection, from neuron 0 to neuron 1, of weight 5
  and delay \<open>k\<close> in an int64 array, in a buffer built for \<open>Dmax = 1\<close>. \<open>ex_net k\<close> is the
  engine as \<open>new_network\<close> returns it. For an odd delay \<open>k\<close>, \<open>ex_fired k\<close> is the engine
  after one step in which both neurons were driven over the threshold by an external
  current of 10000, and \<open>ex_refired\<close> the engine with the delay 1 after a second such step.
\<close>

definition ex_net :: "int \<Rightarrow> IzNetwork" where
  "ex_net k =
     \<lparr>iz_Dmax = 2, iz_N = 2, iz_X = [[0, 0], [0, 0]], iz_I = [0, 0], iz_cursor = 0,
      iz_lastFired = [False, False], iz_dt = 1 / 10, iz_v = [- 65, - 65], iz_u = [- 1, - 1],
      iz_D = Some (Int64, [[1, k], [1, 1]]), iz_W = Some [[0, 5], [0, 0]],
      iz_a = Some [1 / 50, 1 / 50], iz_b = Some [1 / 5, 1 / 5],
      iz_c = Some [- 65, - 65], iz_d = Some [8, 8]\<rparr>"

definition ex_fired :: "int \<Rightarrow> IzNetwork" where
  "ex_fired k =
     (ex_net k)\<lparr>iz_X := [[0, 0], [0, 5]], iz_cursor := 1, iz_lastFired := [True, True],
                iz_v := [30, 30], iz_u := [- (128 / 125), - (128 / 125)]\<rparr>"

definition ex_refired :: IzNetwork where
  "ex_refired =
     (ex_net 1)\<lparr>iz_X := [[0, 5], [0, 0]], iz_cursor := 2, iz_lastFired := [True, True],
                iz_v := [30, 30], iz_u := [433503 / 62500, 433503 / 62500]\<rparr>"




text \<open>
  The two neurons with the delay 1 everywhere, in an int8 array, in a buffer built for
  \<open>Dmax = 127\<close>, as \<open>new_network\<close> returns the engine; and the engine as the first call of
  \<open>update()\<close> leaves it when it raises at line 183.
\<close>

definition small_net :: IzNetwork where
  "small_net =
     \<lparr>iz_Dmax = 128, iz_N = 2, iz_X = replicate 128 [0, 0], iz_I = [0, 0], iz_cursor = 0,
      iz_lastFired = [False, False], iz_dt = 1 / 10, iz_v = [- 65, - 65], iz_u = [- 1, - 1],
      iz_D = Some (Int8, [[1, 1], [1, 1]]), iz_W = Some [[0, 5], [0, 0]],
      iz_a = Some [1 / 50, 1 / 50], iz_b = Some [1 / 5, 1 / 5],
      iz_c = Some [- 65, - 65], iz_d = Some [8, 8]\<rparr>"

definition small_failed :: IzNetwork where
  "small_failed =
     small_net\<lparr>iz_lastFired := [True, True], iz_v := [30, 30],
               iz_u := [- (128 / 125), - (128 / 125)]\<rparr>"

section \<open>Basic facts about the operations\<close>

lemma has_shape_nth: "has_shape M r c \<Longrightarrow> i < r \<Longrightarrow> length (M ! i) = c"
  by (simp add: has_shape_def list_all_length)

lemma has_shape_length: "has_shape M r c \<Longrightarrow> length M = r"
  by (simp add: has_shape_def)

lemma has_shape_iff: "has_shape M r c \<longleftrightarrow> length M = r \<and> (\<forall>i<r. length (M ! i) = c)"
  by (auto simp add: has_shape_def list_all_length)

lemma length_euler_v [simp]: "length (euler_v h I fired v u) = length v"
  by (simp add: euler_v_def)

lemma length_euler_u [simp]: "length (euler_u h a b fired v u) = length u"
  by (simp add: euler_u_def)

lemma substep_lengths:
  "substep h a b I (v, u, fired) = (v', u', fired') \<Longrightarrow>
   length v' = length v \<and> length u' = length u \<and> length fired' = length fired"
  by (auto simp add: substep_def Let_def)

lemma euler_loop_lengths:
  "euler_loop n h a b I (v, u, fired) = (v', u', fired') \<Longrightarrow>
   length v' = length v \<and> length u' = length u \<and> length fired' = length fired"
proof (induction n arbitrary: v u fired)
  case 0
  then show ?case by simp
next
  case (Suc n)
  obtain v1 u1 f1 where st: "substep h a b I (v, u, fired) = (v1, u1, f1)"
    by (cases "substep h a b I (v, u, fired)") auto
  from Suc.prems have "euler_loop n h a b I (v1, u1, f1) = (v', u', fired')"
    by (simp add: st)
  from Suc.IH [OF this] substep_lengths [OF st] show ?case by simp
qed

lemma scatter_fold_shape:
  "has_shape X r c \<Longrightarrow>
   has_shape (fold (\<lambda>j Y. Y[R j := (Y ! (R j))[j := V j]]) js X) r c"
proof (induction js arbitrary: X)
  case Nil
  then show ?case by simp
next
  case (Cons j js)
  have "has_shape (X[R j := (X ! (R j))[j := V j]]) r c"
  proof (cases "R j < length X")
    case True
    then show ?thesis using Cons.prems by (auto simp add: has_shape_iff nth_list_update)
  next
    case False
    then show ?thesis using Cons.prems by (simp add: list_update_beyond)
  qed
  then show ?case using Cons.IH by simp
qed

lemma scatter_row_shape: "has_shape X r c \<Longrightarrow> has_shape (scatter_row dt n cur m Di Wi X) r c"
  unfolding scatter_row_def Let_def by (rule scatter_fold_shape)




lemma deliver_overflow:
  "iz_D s = Some (dt, D) \<Longrightarrow> \<not> fits dt s \<Longrightarrow> deliver (i # rest) s = (Inl OverflowError, s)"
  by (auto simp add: fits_def)

lemma deliver_ok:
  "iz_D s = Some (dt, D) \<Longrightarrow> iz_W s = Some W \<Longrightarrow> fs = [] \<or> fits dt s \<Longrightarrow>
   deliver fs s =
     (Inr (), s\<lparr>iz_X := fold (\<lambda>i. scatter_row dt (iz_N s) (iz_cursor s) (iz_Dmax s) (D ! i) (W ! i))
                           fs (iz_X s)\<rparr>)"
proof (induction fs arbitrary: s)
  case Nil
  then show ?case by simp
next
  case (Cons i fs)
  have f: "fits dt s" using Cons.prems(3) by simp
  let ?s1 = "s\<lparr>iz_X := scatter_row dt (iz_N s) (iz_cursor s) (iz_Dmax s) (D ! i) (W ! i) (iz_X s)\<rparr>"
  have "fits dt ?s1" using f by (simp add: fits_def)
  then have "deliver fs ?s1 =
     (Inr (), ?s1\<lparr>iz_X := fold (\<lambda>i. scatter_row dt (iz_N ?s1) (iz_cursor ?s1) (iz_Dmax ?s1)
                                      (D ! i) (W ! i)) fs (iz_X ?s1)\<rparr>)"
    using Cons.prems(1,2) by (intro Cons.IH) simp_all
  then show ?case
    using Cons.prems(1,2) f by (simp add: fits_def)
qed



lemma invar_dt: "invar s \<Longrightarrow> iz_dt s = 1 / 10"
  by (simp add: invar_def)

lemma substeps_invar:
  assumes "invar s"
  shows "substeps s = 10"
proof -
  have "substeps s = nat \<lfloor>1 / (1 / 10 :: real)\<rfloor>"
    unfolding substeps_def invar_dt [OF assms] ..
  then show ?thesis by simp
qed

lemma total_current_reset [simp]:
  "total_current (s\<lparr>iz_v := x\<rparr>) = total_current s"
  "total_current (s\<lparr>iz_u := y\<rparr>) = total_current s"
  by (simp_all add: total_current_def)

lemma substeps_reset [simp]:
  "substeps (s\<lparr>iz_v := x\<rparr>) = substeps s"
  "substeps (s\<lparr>iz_u := y\<rparr>) = substeps s"
  by (simp_all add: substeps_def)

lemma finish_configured:
  assumes "iz_D s = Some (dt, D)" "iz_W s = Some W"
  shows "finish fired s =
           (if fired_idx_of fired = [] \<or> fits dt s
            then (Inr (fired_idx_of fired),
                  s\<lparr>iz_lastFired := fired, iz_v := clamp_v fired (iz_v s),
                    iz_I := replicate (iz_N s) 0,
                    iz_X := (fold (\<lambda>i. scatter_row dt (iz_N s) (iz_cursor s) (iz_Dmax s)
                                       (D ! i) (W ! i))
                               (fired_idx_of fired) (iz_X s))
                            [iz_cursor s mod iz_Dmax s := replicate (iz_N s) 0],
                    iz_cursor := iz_cursor s + 1\<rparr>)
            else (Inl OverflowError,
                  s\<lparr>iz_lastFired := fired, iz_v := clamp_v fired (iz_v s),
                    iz_I := replicate (iz_N s) 0\<rparr>))"
proof -
  let ?s2 = "s\<lparr>iz_lastFired := fired, iz_v := clamp_v fired (iz_v s), iz_I := replicate (iz_N s) 0\<rparr>"
  have D2: "iz_D ?s2 = Some (dt, D)" and W2: "iz_W ?s2 = Some W" using assms by simp_all
  have fit: "fits dt ?s2 = fits dt s" by (simp add: fits_def)
  show ?thesis
  proof (cases "fired_idx_of fired = [] \<or> fits dt s")
    case True
    then have "fired_idx_of fired = [] \<or> fits dt ?s2" using fit by simp
    from deliver_ok [OF D2 W2 this] True show ?thesis
      by (simp add: finish_def Let_def)
  next
    case False
    then obtain i rest where f: "fired_idx_of fired = i # rest" and nf: "\<not> fits dt ?s2"
      using fit by (cases "fired_idx_of fired") auto
    from deliver_overflow [OF D2 nf, of i rest] False f show ?thesis
      by (simp add: finish_def Let_def)
  qed
qed

lemma update_eq:
  assumes "invar s" "0 < iz_Dmax s \<and> 0 < iz_N s"
    and "iz_a s = Some a" "iz_b s = Some b" "iz_c s = Some c" "iz_d s = Some d"
    and "iz_D s = Some (dt, D)" "iz_W s = Some W"
    and "loop_state s a b c d 10 = (v', u', fired')"
  shows "update s =
           (if fired_idx_of fired' = [] \<or> fits dt s
            then (Inr (fired_idx_of fired'),
                  s\<lparr>iz_v := clamp_v fired' v', iz_u := u', iz_lastFired := fired',
                    iz_I := replicate (iz_N s) 0,
                    iz_X := (fold (\<lambda>i. scatter_row dt (iz_N s) (iz_cursor s) (iz_Dmax s)
                                       (D ! i) (W ! i))
                               (fired_idx_of fired') (iz_X s))
                            [iz_cursor s mod iz_Dmax s := replicate (iz_N s) 0],
                    iz_cursor := iz_cursor s + 1\<rparr>)
            else (Inl OverflowError,
                  s\<lparr>iz_v := clamp_v fired' v', iz_u := u', iz_lastFired := fired',
                    iz_I := replicate (iz_N s) 0\<rparr>))"
proof -
  have n10: "substeps s = 10" using assms(1) by (rule substeps_invar)
  have dt0: "iz_dt s \<noteq> 0" using invar_dt [OF assms(1)] by simp
  let ?s3 = "s\<lparr>iz_v := v', iz_u := u'\<rparr>"
  have u: "update s = finish fired' ?s3"
    using assms(2-6,9) n10 dt0
    by (simp add: update_def Let_def loop_state_def)
  have D3: "iz_D ?s3 = Some (dt, D)" and W3: "iz_W ?s3 = Some W" using assms(7,8) by simp_all
  have fit: "fits dt ?s3 = fits dt s" by (simp add: fits_def)
  show ?thesis
    unfolding u finish_configured [OF D3 W3] fit by simp
qed

lemma update_ok:
  assumes "invar s" "0 < iz_Dmax s \<and> 0 < iz_N s"
    and "iz_a s = Some a" "iz_b s = Some b" "iz_c s = Some c" "iz_d s = Some d"
    and "iz_D s = Some (dt, D)" "iz_W s = Some W"
    and "loop_state s a b c d 10 = (v', u', fired')"
    and "fired_idx_of fired' = [] \<or> fits dt s"
  shows "update s =
           (Inr (fired_idx_of fired'),
            s\<lparr>iz_v := clamp_v fired' v', iz_u := u', iz_lastFired := fired',
              iz_I := replicate (iz_N s) 0,
              iz_X := (fold (\<lambda>i. scatter_row dt (iz_N s) (iz_cursor s) (iz_Dmax s) (D ! i) (W ! i))
                         (fired_idx_of fired') (iz_X s))
                      [iz_cursor s mod iz_Dmax s := replicate (iz_N s) 0],
              iz_cursor := iz_cursor s + 1\<rparr>)"
  using update_eq [OF assms(1-9)] assms(10) by simp

lemma deliver_Inr:
  "deliver fs s = (Inr x, s') \<Longrightarrow> has_shape (iz_X s) (iz_Dmax s) (iz_N s) \<Longrightarrow>
   \<exists>X3. s' = s\<lparr>iz_X := X3\<rparr> \<and> has_shape X3 (iz_Dmax s) (iz_N s)"
proof (induction fs arbitrary: s)
  case Nil
  then have "s' = s\<lparr>iz_X := iz_X s\<rparr>" by simp
  with Nil.prems(2) show ?case by blast
next
  case (Cons i fs)
  from Cons.prems(1) obtain A W where D: "iz_D s = Some A" and W: "iz_W s = Some W"
    by (auto split: option.splits if_splits)
  let ?s1 = "s\<lparr>iz_X := scatter_row (fst A) (iz_N s) (iz_cursor s) (iz_Dmax s) (snd A ! i) (W ! i)
                         (iz_X s)\<rparr>"
  have d: "deliver fs ?s1 = (Inr x, s')"
    using Cons.prems(1) D W by (simp split: if_splits)
  have sh: "has_shape (iz_X ?s1) (iz_Dmax ?s1) (iz_N ?s1)"
    using Cons.prems(2) by (simp add: scatter_row_shape)
  from Cons.IH [OF d sh] obtain X3 where "s' = ?s1\<lparr>iz_X := X3\<rparr>" "has_shape X3 (iz_Dmax s) (iz_N s)"
    by auto
  then have "s' = s\<lparr>iz_X := X3\<rparr> \<and> has_shape X3 (iz_Dmax s) (iz_N s)" by simp
  then show ?case by blast
qed

lemma finish_Inr:
  assumes "finish fired s = (Inr f, s')" "has_shape (iz_X s) (iz_Dmax s) (iz_N s)"
  shows "\<exists>X3. f = fired_idx_of fired \<and> has_shape X3 (iz_Dmax s) (iz_N s) \<and>
           s' = s\<lparr>iz_v := clamp_v fired (iz_v s), iz_lastFired := fired,
                  iz_I := replicate (iz_N s) 0,
                  iz_X := X3[iz_cursor s mod iz_Dmax s := replicate (iz_N s) 0],
                  iz_cursor := iz_cursor s + 1\<rparr>"
proof -
  let ?s2 = "s\<lparr>iz_lastFired := fired, iz_v := clamp_v fired (iz_v s), iz_I := replicate (iz_N s) 0\<rparr>"
  obtain r s3 where d: "deliver (fired_idx_of fired) ?s2 = (r, s3)"
    by (cases "deliver (fired_idx_of fired) ?s2") auto
  from assms(1) d obtain x where r: "r = Inr x"
    by (cases r) (auto simp add: finish_def Let_def)
  have sh: "has_shape (iz_X ?s2) (iz_Dmax ?s2) (iz_N ?s2)" using assms(2) by simp
  from deliver_Inr [OF d [unfolded r] sh] obtain X3
    where s3: "s3 = ?s2\<lparr>iz_X := X3\<rparr>" and sh3: "has_shape X3 (iz_Dmax s) (iz_N s)"
    by auto
  have "f = fired_idx_of fired" and
    "s' = s3\<lparr>iz_X := (iz_X s3)[iz_cursor s3 mod iz_Dmax s3 := replicate (iz_N s3) 0],
            iz_cursor := iz_cursor s3 + 1\<rparr>"
    using assms(1) d r by (auto simp add: finish_def Let_def)
  then show ?thesis using s3 sh3 by auto
qed

lemma update_Inr:
  assumes "invar s" "update s = (Inr f, s')"
  shows "\<exists>a b c d v' u' fired' X3.
           iz_a s = Some a \<and> iz_b s = Some b \<and> iz_c s = Some c \<and> iz_d s = Some d \<and>
           0 < iz_Dmax s \<and> 0 < iz_N s \<and>
           loop_state s a b c d 10 = (v', u', fired') \<and>
           f = fired_idx_of fired' \<and> has_shape X3 (iz_Dmax s) (iz_N s) \<and>
           s' = s\<lparr>iz_v := clamp_v fired' v', iz_u := u', iz_lastFired := fired',
                  iz_I := replicate (iz_N s) 0,
                  iz_X := X3[iz_cursor s mod iz_Dmax s := replicate (iz_N s) 0],
                  iz_cursor := iz_cursor s + 1\<rparr>"
proof -
  have n10: "substeps s = 10" using assms(1) by (rule substeps_invar)
  have dt: "iz_dt s \<noteq> 0" using invar_dt [OF assms(1)] by simp
  have shX: "has_shape (iz_X s) (iz_Dmax s) (iz_N s)" using assms(1) by (simp add: invar_def)
  from assms(2) obtain c where c: "iz_c s = Some c"
    by (auto simp add: update_def split: option.splits)
  from assms(2) c have n: "0 < iz_N s"
    by (auto simp add: update_def split: if_splits)
  from assms(2) c n obtain d where d: "iz_d s = Some d"
    by (auto simp add: update_def Let_def split: option.splits)
  from assms(2) c n d have m: "0 < iz_Dmax s"
    by (auto simp add: update_def Let_def split: if_splits)
  from assms(2) c d m n n10 dt obtain a b where a: "iz_a s = Some a" and b: "iz_b s = Some b"
    by (auto simp add: update_def Let_def split: option.splits)
  obtain v' u' fired' where l: "loop_state s a b c d 10 = (v', u', fired')"
    by (cases "loop_state s a b c d 10") auto
  have fin: "finish fired' (s\<lparr>iz_v := v', iz_u := u'\<rparr>) = (Inr f, s')"
    using assms(2) a b c d m n n10 dt l
    by (simp add: update_def Let_def loop_state_def)
  have "has_shape (iz_X (s\<lparr>iz_v := v', iz_u := u'\<rparr>)) (iz_Dmax (s\<lparr>iz_v := v', iz_u := u'\<rparr>))
          (iz_N (s\<lparr>iz_v := v', iz_u := u'\<rparr>))"
    using shX by simp
  from finish_Inr [OF fin this] obtain X3 where
    "f = fired_idx_of fired'" "has_shape X3 (iz_Dmax s) (iz_N s)"
    "s' = s\<lparr>iz_v := clamp_v fired' v', iz_u := u', iz_lastFired := fired',
                  iz_I := replicate (iz_N s) 0,
                  iz_X := X3[iz_cursor s mod iz_Dmax s := replicate (iz_N s) 0],
                  iz_cursor := iz_cursor s + 1\<rparr>"
    by auto
  with a b c d m n l show ?thesis by blast
qed

lemma loop_state_lengths:
  assumes "invar s" "loop_state s a b c d k = (v', u', fired')"
  shows "length v' = iz_N s \<and> length u' = iz_N s \<and> length fired' = iz_N s"
  using euler_loop_lengths [OF assms(2) [unfolded loop_state_def]] assms(1)
  by (simp add: invar_def reset_v_def reset_u_def)







lemma below_half_iff: "real_of_int x < 1 / 2 \<longleftrightarrow> \<not> 1 \<le> x"
  by linarith

lemma positive_check:
  "list_ex (list_ex (\<lambda>x. real_of_int x < 1 / 2)) M \<longleftrightarrow> \<not> list_all (list_all (\<lambda>x. 1 \<le> x)) M"
  unfolding list_ex_iff list_all_iff below_half_iff by blast

lemma setDelays_IntArray:
  "setDelays (IntArray dt M) s =
     (if \<not> has_shape M (iz_N s) (iz_N s)
        then (Inl (Exception ''Delay matrix must be N-by-N.''), s)
      else if \<not> list_all (list_all (\<lambda>x. 1 \<le> x)) M
        then (Inl (Exception ''Delays must be strictly positive.''), s)
      else (Inr (), s\<lparr>iz_D := Some (dt, M)\<rparr>))"
  unfolding setDelays_def positive_check by simp

lemma setDelays_not_int:
  "\<forall>dt M. D \<noteq> IntArray dt M \<Longrightarrow> fst (setDelays D s) \<noteq> Inr () \<and> snd (setDelays D s) = s"
  by (cases D) (simp_all add: setDelays_def)


section \<open>The delivery buffer along a run\<close>





lemma dtype_bounds: "dtype_min dt \<le> 0 \<and> 0 < dtype_max dt \<and>
    dtype_max dt - dtype_min dt = 2 ^ dtype_bits dt - 1"
  by (cases dt) (simp_all add: dtype_min_def dtype_max_def)

lemma wrap_id:
  assumes "dtype_min dt \<le> x" "x \<le> dtype_max dt"
  shows "wrap dt x = x"
proof -
  have "0 \<le> x - dtype_min dt" using assms(1) by simp
  moreover have "x - dtype_min dt < 2 ^ dtype_bits dt"
    using assms(2) dtype_bounds [of dt] by linarith
  ultimately have "(x - dtype_min dt) mod 2 ^ dtype_bits dt = x - dtype_min dt"
    by (rule mod_pos_pos_trivial)
  then show ?thesis by (simp add: wrap_def)
qed

lemma slot_of_exact:
  assumes "1 \<le> dl" "int c + dl \<le> dtype_max dt"
  shows "slot_of dt c m dl = slot_exact c m dl"
proof -
  have "dtype_min dt \<le> int c + dl" using assms(1) dtype_bounds [of dt] by linarith
  from wrap_id [OF this assms(2)] show ?thesis
    by (simp add: slot_of_def slot_exact_def)
qed










section \<open>A configured network and the input it receives\<close>




section \<open>The integration loop, neuron by neuron\<close>

lemma substep_nth:
  assumes "substep h a b I (v, u, fired) = (v', u', fired')"
    and "length v = n" "length u = n" "length fired = n" "j < n"
  shows "(v' ! j, u' ! j, fired' ! j) =
         neuron_substep h (a ! j) (b ! j) (I ! j) (v ! j, u ! j, fired ! j)"
  using assms by (auto simp add: substep_def neuron_substep_def euler_v_def euler_u_def Let_def)

lemma euler_loop_nth:
  assumes "length v = n" "length u = n" "length fired = n" "j < n"
  shows "euler_loop k h a b I (v, u, fired) = (v', u', fired') \<Longrightarrow>
         (v' ! j, u' ! j, fired' ! j) =
         neuron_loop k h (a ! j) (b ! j) (I ! j) (v ! j, u ! j, fired ! j)"
  using assms(1,2,3)
proof (induction k arbitrary: v u fired)
  case 0
  then show ?case by simp
next
  case (Suc k)
  obtain v1 u1 f1 where st: "substep h a b I (v, u, fired) = (v1, u1, f1)"
    by (cases "substep h a b I (v, u, fired)") auto
  from substep_lengths [OF st] Suc.prems have len: "length v1 = n" "length u1 = n" "length f1 = n"
    by simp_all
  have "euler_loop k h a b I (v1, u1, f1) = (v', u', fired')"
    using Suc.prems(1) st by simp
  from Suc.IH [OF this len]
  show ?case
    using substep_nth [OF st Suc.prems(2,3,4) assms(4)] by simp
qed

lemma neuron_loop_add:
  "neuron_loop (k + m) h a b I st = neuron_loop m h a b I (neuron_loop k h a b I st)"
  by (induction k arbitrary: st) simp_all

lemma neuron_loop_Suc:
  "neuron_loop (Suc k) h a b I st = neuron_substep h a b I (neuron_loop k h a b I st)"
  using neuron_loop_add [of k 1 h a b I st] by simp

lemma neuron_loop_frozen: "neuron_loop m h a b I (v, u, True) = (v, u, True)"
  by (induction m) (simp_all add: neuron_substep_def)

lemma neuron_substep_fired:
  "neuron_substep h a b I (v, u, fired) = (v', u', fired') \<Longrightarrow> fired' = (fired \<or> v' > 30)"
  by (auto simp add: neuron_substep_def Let_def split: if_splits)

lemma neuron_loop_fired:
  "neuron_loop k h a b I (v, u, False) = (v', u', fired') \<Longrightarrow>
   fired' = (\<exists>i\<in>{1..k}. fst (neuron_loop i h a b I (v, u, False)) > 30)"
proof (induction k arbitrary: v' u' fired')
  case 0
  then show ?case by simp
next
  case (Suc k)
  obtain v1 u1 f1 where k: "neuron_loop k h a b I (v, u, False) = (v1, u1, f1)"
    by (cases "neuron_loop k h a b I (v, u, False)") auto
  have st: "neuron_substep h a b I (v1, u1, f1) = (v', u', fired')"
    using Suc.prems k by (simp add: neuron_loop_Suc del: neuron_loop.simps)
  have f1: "f1 = (\<exists>i\<in>{1..k}. fst (neuron_loop i h a b I (v, u, False)) > 30)"
    using Suc.IH [OF k] .
  have "fired' = (f1 \<or> v' > 30)" using st by (rule neuron_substep_fired)
  moreover have "v' = fst (neuron_loop (Suc k) h a b I (v, u, False))"
    using Suc.prems by simp
  moreover have "{1..Suc k} = insert (Suc k) {1..k}" by auto
  ultimately show ?case using f1 by (auto simp del: neuron_loop.simps)
qed

lemma loop_state_nth:
  assumes "invar s" "j < iz_N s" "loop_state s a b c d k = (v', u', fired')"
  shows "(v' ! j, u' ! j, fired' ! j) =
         neuron_loop k (iz_dt s) (a ! j) (b ! j) (total_current s ! j)
           (reset_v (iz_lastFired s) c (iz_v s) ! j, reset_u (iz_lastFired s) d (iz_u s) ! j, False)"
proof -
  have len: "length (reset_v (iz_lastFired s) c (iz_v s)) = iz_N s"
    "length (reset_u (iz_lastFired s) d (iz_u s)) = iz_N s"
    "length (replicate (iz_N s) False) = iz_N s"
    using assms(1) by (simp_all add: invar_def reset_v_def reset_u_def)
  from euler_loop_nth [OF len assms(2) assms(3) [unfolded loop_state_def]]
  show ?thesis using assms(2) by simp
qed

lemma loop_state_fired:
  assumes "invar s" "j < iz_N s" "loop_state s a b c d k = (v', u', fired')"
  shows "fired' ! j = (\<exists>i\<in>{1..k}. fst (loop_state s a b c d i) ! j > 30)"
proof -
  let ?st = "(reset_v (iz_lastFired s) c (iz_v s) ! j, reset_u (iz_lastFired s) d (iz_u s) ! j, False)"
  let ?nl = "\<lambda>i. neuron_loop i (iz_dt s) (a ! j) (b ! j) (total_current s ! j) ?st"
  have nth: "fst (loop_state s a b c d i) ! j = fst (?nl i)" for i
  proof -
    obtain vi ui fi where l: "loop_state s a b c d i = (vi, ui, fi)"
      by (cases "loop_state s a b c d i") auto
    from loop_state_nth [OF assms(1,2) l] show ?thesis by (simp add: l flip: surjective_pairing)
      (metis fst_conv)
  qed
  have "?nl k = (v' ! j, u' ! j, fired' ! j)"
    using loop_state_nth [OF assms] by simp
  from neuron_loop_fired [OF this] show ?thesis by (simp add: nth)
qed

subsection \<open>A regular-spiking neuron after its reset\<close>

lemma recover_step:
  assumes "k < 10" "- 65 - 3 * real k \<le> v" "v \<le> - 65" "69 / 10 - real k / 10 \<le> u" "u \<le> 7"
    and "neuron_substep (1 / 10) (1 / 50) (1 / 5) 0 (v, u, False) = (v', u', f')"
  shows "\<not> f' \<and> v' < - 65 \<and> - 65 - 3 * real (Suc k) \<le> v' \<and>
         69 / 10 - real (Suc k) / 10 \<le> u' \<and> u' \<le> 7"
proof -
  have k: "real k < 10" using assms(1) by simp
  have v': "v' = v + 1 / 10 * (0.04 * v * v + 5 * v + 140 - u + 0)"
    and u': "u' = u + 1 / 10 * (1 / 50 * (1 / 5 * v - u))"
    and f': "f' = (v' > 30)"
    using assms(6) by (auto simp add: neuron_substep_def Let_def)
  have vb: "- 95 \<le> v" using assms(2) k by linarith
  have id1: "v' + 65 = (v + 65) * (1 + (v + 60) / 250) - 8 / 5 - u / 10"
    unfolding v' by (simp add: field_simps)
  have "(v + 65) * (1 + (v + 60) / 250) \<le> 0"
  proof (rule mult_nonpos_nonneg)
    show "v + 65 \<le> 0" using assms(3) by simp
    have "0 \<le> 250 + (v + 60)" using vb by simp
    then show "0 \<le> 1 + (v + 60) / 250" by (simp add: field_simps)
  qed
  with id1 assms(4) k have lt: "v' < - 65" by linarith
  have id2: "v' - v = ((v + 125 / 2) * (v + 125 / 2)) / 250 - 13 / 8 - u / 10"
    unfolding v' by (simp add: field_simps)
  have "0 \<le> (v + 125 / 2) * (v + 125 / 2)" by simp
  then have "0 \<le> ((v + 125 / 2) * (v + 125 / 2)) / 250" by simp
  with id2 assms(5) have ge: "v - 3 \<le> v'" by linarith
  have id3: "2500 * u' = 2495 * u + v"
    unfolding u' by (simp add: field_simps)
  have ub: "u' \<le> 7" using id3 assms(3,5) by linarith
  have lb: "u - 1 / 10 \<le> u'" using id3 vb assms(5) by linarith
  show ?thesis
    using lt ge ub lb f' assms(2,4) by (simp add: field_simps)
qed

lemma recover_loop:
  "k + m \<le> 10 \<Longrightarrow> - 65 - 3 * real k \<le> v \<Longrightarrow> v \<le> - 65 \<Longrightarrow>
   69 / 10 - real k / 10 \<le> u \<Longrightarrow> u \<le> 7 \<Longrightarrow>
   neuron_loop m (1 / 10) (1 / 50) (1 / 5) 0 (v, u, False) = (v', u', f') \<Longrightarrow>
   \<not> f' \<and> (0 < m \<longrightarrow> v' < - 65)"
proof (induction m arbitrary: k v u)
  case 0
  then show ?case by simp
next
  case (Suc m)
  obtain v1 u1 f1 where st: "neuron_substep (1 / 10) (1 / 50) (1 / 5) 0 (v, u, False) = (v1, u1, f1)"
    by (cases "neuron_substep (1 / 10) (1 / 50) (1 / 5) 0 (v, u, False)") auto
  have k: "k < 10" using Suc.prems(1) by simp
  from recover_step [OF k Suc.prems(2,3,4,5) st] have
    b: "\<not> f1" "v1 < - 65" "- 65 - 3 * real (Suc k) \<le> v1" "69 / 10 - real (Suc k) / 10 \<le> u1" "u1 \<le> 7"
    by simp_all
  have l: "neuron_loop m (1 / 10) (1 / 50) (1 / 5) 0 (v1, u1, False) = (v', u', f')"
    using Suc.prems(6) st b(1) by simp
  have km: "Suc k + m \<le> 10" using Suc.prems(1) by simp
  have v1: "v1 \<le> - 65" using b(2) by simp
  from Suc.IH [OF km b(3) v1 b(4,5) l] have r: "\<not> f'" "0 < m \<longrightarrow> v' < - 65" by simp_all
  show ?case
  proof (cases m)
    case 0
    then have "v' = v1" using l by simp
    then show ?thesis using r b(2) by simp
  next
    case (Suc m')
    then show ?thesis using r by simp
  qed
qed

lemma recover_ten:
  "neuron_loop 10 (1 / 10) (1 / 50) (1 / 5) 0 (- 65, - (128 / 125) + 8, False) = (v', u', f') \<Longrightarrow>
   \<not> f' \<and> v' < - 65"
  using recover_loop [of 0 10 "- 65" "- (128 / 125) + 8" v' u' f'] by simp

section \<open>One step of the two-neuron network\<close>

lemma upt2: "[0..<2] = [0, 1]"
  by (simp add: numeral_2_eq_2)

lemma ex_new:
  "1 \<le> k \<Longrightarrow>
   new_network 2 1 [1 / 50, 1 / 50] [1 / 5, 1 / 5] [- 65, - 65] [8, 8] [[0, 5], [0, 0]]
     (IntArray Int64 [[1, k], [1, 1]]) = Inr (ex_net k)"
  by (simp add: new_network_def IzNetwork_init_def setParameters_def setWeights_def
      setDelays_IntArray has_shape_def ex_net_def numeral_2_eq_2)

lemma ex_setCurrent:
  "setCurrent I (ex_net k) = (if length I = 2 then (Inr (), (ex_net k)\<lparr>iz_I := I\<rparr>)
     else (Inl (Exception ''Current vector must be of size N.''), ex_net k))"
  by (simp add: setCurrent_def ex_net_def)

lemma ex_invar: "1 \<le> k \<Longrightarrow> invar ((ex_net k)\<lparr>iz_I := [10000, 10000]\<rparr>)"
  by (simp add: invar_def ex_net_def has_shape_def)

lemma ex_loop:
  "loop_state ((ex_net k)\<lparr>iz_I := [10000, 10000]\<rparr>)
     [1 / 50, 1 / 50] [1 / 5, 1 / 5] [- 65, - 65] [8, 8] 10 =
     ([1867 / 2, 1867 / 2], [- (128 / 125), - (128 / 125)], [True, True])"
  by (simp add: loop_state_def ex_net_def numeral_nat total_current_def reset_v_def reset_u_def
      substep_def euler_v_def euler_u_def Let_def upt2)

lemma ex_slot:
  assumes "1 \<le> k" "k mod 2 = 1" "k \<le> 9223372036854775807"
  shows "slot_of Int64 0 2 k = 1"
proof -
  have "int 0 + k \<le> dtype_max Int64" using assms(3) by (simp add: dtype_max_def)
  from slot_of_exact [OF assms(1) this] show ?thesis
    using assms(2) by (simp add: slot_exact_def)
qed

lemma ex_update:
  assumes "1 \<le> k" "k mod 2 = 1" "k \<le> 9223372036854775807"
  shows "update ((ex_net k)\<lparr>iz_I := [10000, 10000]\<rparr>) = (Inr [0, 1], ex_fired k)"
proof -
  have f: "fired_idx_of [True, True] = [0, 1]"
    by (simp add: fired_idx_of_def upt2)
  have c: "clamp_v [True, True] [1867 / 2, 1867 / 2] = [30, 30]"
    by (simp add: clamp_v_def upt2)
  have one: "slot_of Int64 0 2 1 = 1" by (rule ex_slot) simp_all
  have x: "fold (\<lambda>i. scatter_row Int64 2 0 2 ([[1, k], [1, 1]] ! i) ([[0, 5], [0, 0]] ! i)) [0, 1]
             [[0, 0], [0, 0]] = [[0, 0], [0, 5]]"
    by (simp add: scatter_row_def ex_slot [OF assms] one upt2 Let_def)
  have fit: "fits Int64 ((ex_net k)\<lparr>iz_I := [10000, 10000]\<rparr>)"
    by (simp add: fits_def dtype_max_def ex_net_def)
  have "update ((ex_net k)\<lparr>iz_I := [10000, 10000]\<rparr>) =
     (Inr (fired_idx_of [True, True]),
      (ex_net k)\<lparr>iz_I := [10000, 10000]\<rparr>
         \<lparr>iz_v := clamp_v [True, True] [1867 / 2, 1867 / 2],
          iz_u := [- (128 / 125), - (128 / 125)],
          iz_lastFired := [True, True], iz_I := replicate 2 0,
          iz_X := (fold (\<lambda>i. scatter_row Int64 2 0 2 ([[1, k], [1, 1]] ! i) ([[0, 5], [0, 0]] ! i))
                     (fired_idx_of [True, True]) [[0, 0], [0, 0]])[0 mod 2 := replicate 2 0],
          iz_cursor := 0 + 1\<rparr>)"
    using update_ok [OF ex_invar [OF assms(1)] _ _ _ _ _ _ _ ex_loop, of Int64 "[[1, k], [1, 1]]"] fit
    by (simp add: ex_net_def)
  then show ?thesis
    unfolding f c x by (simp add: ex_net_def ex_fired_def numeral_2_eq_2)
qed

lemma ex_run:
  assumes "1 \<le> k" "k mod 2 = 1" "k \<le> 9223372036854775807"
  shows "run_steps (ex_net k) [[10000, 10000]] = (Inr [[0, 1]], ex_fired k)"
  by (simp add: ex_setCurrent ex_update [OF assms])

lemma ex_fired_current: "total_current (ex_fired k) = [0, 5]"
  by (simp add: total_current_def ex_fired_def ex_net_def upt2)

lemma ex_loop_first:
  "loop_state ((ex_net k)\<lparr>iz_I := [10000, 10000]\<rparr>)
     [1 / 50, 1 / 50] [1 / 5, 1 / 5] [- 65, - 65] [8, 8] 1 =
     ([1867 / 2, 1867 / 2], [- (128 / 125), - (128 / 125)], [True, True])"
  by (simp add: loop_state_def ex_net_def total_current_def reset_v_def reset_u_def
      substep_def euler_v_def euler_u_def Let_def upt2)

lemma ex_fired_invar: "1 \<le> k \<Longrightarrow> invar ((ex_fired k)\<lparr>iz_I := I\<rparr>) = (length I = 2)"
  by (auto simp add: invar_def ex_fired_def ex_net_def has_shape_def)

lemma ex_loop_again:
  "loop_state ((ex_fired 1)\<lparr>iz_I := [10000, 10000]\<rparr>)
     [1 / 50, 1 / 50] [1 / 5, 1 / 5] [- 65, - 65] [8, 8] 10 =
     ([582939 / 625, 1166503 / 1250], [433503 / 62500, 433503 / 62500], [True, True])"
  by (simp add: loop_state_def ex_fired_def ex_net_def numeral_nat total_current_def reset_v_def
      reset_u_def substep_def euler_v_def euler_u_def Let_def upt2)

lemma ex_update_again:
  "update ((ex_fired 1)\<lparr>iz_I := [10000, 10000]\<rparr>) = (Inr [0, 1], ex_refired)"
proof -
  have i: "invar ((ex_fired 1)\<lparr>iz_I := [10000, 10000]\<rparr>)"
    by (simp add: ex_fired_invar)
  have f: "fired_idx_of [True, True] = [0, 1]"
    by (simp add: fired_idx_of_def upt2)
  have c: "clamp_v [True, True] [582939 / 625, 1166503 / 1250] = [30, 30]"
    by (simp add: clamp_v_def upt2)
  have sl: "slot_of Int64 (Suc 0) 2 1 = 0"
    by (simp add: slot_of_def wrap_def dtype_min_def)
  have x: "fold (\<lambda>i. scatter_row Int64 2 1 2 ([[1, 1], [1, 1]] ! i) ([[0, 5], [0, 0]] ! i)) [0, 1]
             [[0, 0], [0, 5]] = [[0, 5], [0, 5]]"
    by (simp add: scatter_row_def sl upt2 Let_def)
  have fit: "fits Int64 ((ex_fired 1)\<lparr>iz_I := [10000, 10000]\<rparr>)"
    by (simp add: fits_def dtype_max_def ex_fired_def ex_net_def)
  have "update ((ex_fired 1)\<lparr>iz_I := [10000, 10000]\<rparr>) =
     (Inr (fired_idx_of [True, True]),
      (ex_fired 1)\<lparr>iz_I := [10000, 10000]\<rparr>
         \<lparr>iz_v := clamp_v [True, True] [582939 / 625, 1166503 / 1250],
          iz_u := [433503 / 62500, 433503 / 62500],
          iz_lastFired := [True, True], iz_I := replicate 2 0,
          iz_X := (fold (\<lambda>i. scatter_row Int64 2 1 2 ([[1, 1], [1, 1]] ! i) ([[0, 5], [0, 0]] ! i))
                     (fired_idx_of [True, True]) [[0, 0], [0, 5]])[1 mod 2 := replicate 2 0],
          iz_cursor := 1 + 1\<rparr>)"
    using update_ok [OF i _ _ _ _ _ _ _ ex_loop_again, of Int64 "[[1, 1], [1, 1]]"] fit
    by (simp add: ex_fired_def ex_net_def)
  then show ?thesis
    unfolding f c x by (simp add: ex_net_def ex_fired_def ex_refired_def numeral_2_eq_2)
qed

lemma ex_neuron_again:
  "neuron_loop 10 (1 / 10) (1 / 50) (1 / 5) 10000 (- 65, 872 / 125, False) =
     (582939 / 625, 433503 / 62500, True)"
proof -
  have one: "neuron_loop 1 (1 / 10) (1 / 50) (1 / 5) 10000 (- 65, 872 / 125, False) =
      (582939 / 625, 433503 / 62500, True)"
    by (simp add: neuron_substep_def Let_def)
  have "neuron_loop (1 + 9) (1 / 10) (1 / 50) (1 / 5) 10000 (- 65, 872 / 125, False) =
        (582939 / 625, 433503 / 62500, True)"
    unfolding neuron_loop_add one neuron_loop_frozen ..
  then show ?thesis by (simp del: neuron_loop.simps)
qed

section \<open>The network with the largest int64 delay\<close>

lemma ten_passes: "(10::nat) = Suc (Suc (Suc (Suc (Suc (Suc (Suc (Suc (Suc (Suc 0)))))))))"
  by simp

lemma upt3: "[0..<3] = [0, 1, 2]"
  by (simp add: numeral_3_eq_3)










section \<open>The network with int8 delays\<close>

lemma small_new:
  "new_network 2 127 [1 / 50, 1 / 50] [1 / 5, 1 / 5] [- 65, - 65] [8, 8] [[0, 5], [0, 0]]
     (IntArray Int8 [[1, 1], [1, 1]]) = Inr small_net"
  by (simp add: new_network_def IzNetwork_init_def setParameters_def setWeights_def
      setDelays_IntArray has_shape_def small_net_def numeral_2_eq_2)

lemma small_invar: "invar (small_net\<lparr>iz_I := [10000, 10000]\<rparr>)"
  by (simp add: invar_def small_net_def has_shape_def list_all_iff)

lemma small_loop:
  "loop_state (small_net\<lparr>iz_I := [10000, 10000]\<rparr>)
     [1 / 50, 1 / 50] [1 / 5, 1 / 5] [- 65, - 65] [8, 8] 10 =
     ([1867 / 2, 1867 / 2], [- (128 / 125), - (128 / 125)], [True, True])"
  by (simp add: loop_state_def small_net_def ten_passes total_current_def reset_v_def
      reset_u_def substep_def euler_v_def euler_u_def Let_def upt2)

lemma small_update:
  "update (small_net\<lparr>iz_I := [10000, 10000]\<rparr>) = (Inl OverflowError, small_failed)"
proof -
  have f: "fired_idx_of [True, True] = [0, 1]"
    by (simp add: fired_idx_of_def upt2)
  have c: "clamp_v [True, True] [1867 / 2, 1867 / 2] = [30, 30]"
    by (simp add: clamp_v_def upt2)
  have fit: "\<not> fits Int8 (small_net\<lparr>iz_I := [10000, 10000]\<rparr>)"
    by (simp add: fits_def dtype_max_def small_net_def)
  have "update (small_net\<lparr>iz_I := [10000, 10000]\<rparr>) =
     (Inl OverflowError,
      small_net\<lparr>iz_I := [10000, 10000]\<rparr>
         \<lparr>iz_v := clamp_v [True, True] [1867 / 2, 1867 / 2],
          iz_u := [- (128 / 125), - (128 / 125)],
          iz_lastFired := [True, True], iz_I := replicate 2 0\<rparr>)"
    using update_eq [OF small_invar _ _ _ _ _ _ _ small_loop, of Int8 "[[1, 1], [1, 1]]"] fit f
    by (simp add: small_net_def)
  then show ?thesis
    unfolding c by (simp add: small_net_def small_failed_def numeral_2_eq_2)
qed

lemma small_run:
  "run_steps small_net [[10000, 10000]] = (Inl OverflowError, small_failed)"
proof -
  have "setCurrent [10000, 10000] small_net = (Inr (), small_net\<lparr>iz_I := [10000, 10000]\<rparr>)"
    by (simp add: setCurrent_def small_net_def)
  then show ?thesis by (simp add: small_update)
qed

section \<open>The properties\<close>

subsection \<open>C1: delayed delivery\<close>

text \<open>
  C1. The claim is that a single connection of weight \<open>w\<close> and delay \<open>k\<close> with
  \<open>1 \<le> k \<le> Dmax\<close> brings exactly \<open>w\<close> to its target \<open>k\<close> steps after the source fires. The
  code computes the target row in the dtype of the delay array, and fails the claim when
  that dtype is narrow. With two neurons, \<open>Dmax = 127\<close> and the delay 1 in an int8 array,
  neuron 0 fires in the first step, and the call raises \<open>OverflowError\<close> at line 183,
  where \<open>self._Dmax = 128\<close> meets the array: nothing is written to the buffer, and the
  total input current of neuron 1 stays zero. And with three rows (\<open>Dmax = 2\<close>) a firing
  at cursor 127 over the delay 1 addresses row 1, the row at the cursor, which the same
  call clears, where \<open>(127 + 1) mod 3\<close> is row 2.
\<close>

theorem delivery_fails_in_int8:
  "new_network 2 127 [1 / 50, 1 / 50] [1 / 5, 1 / 5] [- 65, - 65] [8, 8] [[0, 5], [0, 0]]
     (IntArray Int8 [[1, 1], [1, 1]]) = Inr small_net \<and>
   run_steps small_net [[10000, 10000]] = (Inl OverflowError, small_failed) \<and>
   iz_lastFired small_failed = [True, True] \<and>
   iz_X small_failed = replicate 128 [0, 0] \<and>
   slot_of Int8 127 3 1 = 1 \<and> (127::nat) mod 3 = 1 \<and> slot_exact 127 3 1 = 2"
proof -
  have "slot_of Int8 127 3 1 = 1"
    by (simp add: slot_of_def wrap_def dtype_min_def)
  moreover have "slot_exact 127 3 1 = 2"
    by (simp add: slot_exact_def)
  moreover have "iz_X small_failed = replicate 128 [0, 0]"
    by (simp add: small_failed_def small_net_def)
  moreover have "iz_lastFired small_failed = [True, True]"
    by (simp add: small_failed_def)
  ultimately show ?thesis
    using small_new small_run by simp
qed

subsection \<open>C2: the consumed slot is cleared\<close>

text \<open>
  C2. When a call of \<open>update()\<close> returns, the row of the delivery buffer at the cursor
  position the call started with, taken modulo \<open>Dmax + 1\<close> (the row the call added to the
  external current), holds only zeros.
\<close>

theorem consumed_slot_cleared:
  assumes "invar s" "update s = (Inr f, s')"
  shows "iz_X s' ! (iz_cursor s mod iz_Dmax s) = replicate (iz_N s) 0"
proof -
  from update_Inr [OF assms] obtain a b c d v' u' fired' X3 where
    m: "0 < iz_Dmax s" and sh: "has_shape X3 (iz_Dmax s) (iz_N s)" and
    s': "s' = s\<lparr>iz_v := clamp_v fired' v', iz_u := u', iz_lastFired := fired',
                  iz_I := replicate (iz_N s) 0,
                  iz_X := X3[iz_cursor s mod iz_Dmax s := replicate (iz_N s) 0],
                  iz_cursor := iz_cursor s + 1\<rparr>"
    by blast
  have "iz_cursor s mod iz_Dmax s < length X3"
    using m has_shape_length [OF sh] by simp
  then show ?thesis by (simp add: s')
qed

theorem consumed_slot_cleared_witness:
  "invar ((ex_net 1)\<lparr>iz_I := [10000, 10000]\<rparr>) \<and>
   update ((ex_net 1)\<lparr>iz_I := [10000, 10000]\<rparr>) = (Inr [0, 1], ex_fired 1) \<and>
   iz_X (ex_fired 1) ! (0 mod 2) = [0, 0] \<and>
   invar ((ex_fired 1)\<lparr>iz_I := [10000, 10000]\<rparr>) \<and>
   iz_X ((ex_fired 1)\<lparr>iz_I := [10000, 10000]\<rparr>) ! (1 mod 2) = [0, 5] \<and>
   update ((ex_fired 1)\<lparr>iz_I := [10000, 10000]\<rparr>) = (Inr [0, 1], ex_refired) \<and>
   iz_X ex_refired ! (1 mod 2) = [0, 0]"
proof -
  have i: "invar ((ex_net 1)\<lparr>iz_I := [10000, 10000]\<rparr>)"
    by (rule ex_invar) simp
  have u: "update ((ex_net 1)\<lparr>iz_I := [10000, 10000]\<rparr>) = (Inr [0, 1], ex_fired 1)"
    by (rule ex_update) simp_all
  have i2: "invar ((ex_fired 1)\<lparr>iz_I := [10000, 10000]\<rparr>)"
    by (simp add: ex_fired_invar)
  have x2: "iz_X ((ex_fired 1)\<lparr>iz_I := [10000, 10000]\<rparr>) ! (1 mod 2) = [0, 5]"
    by (simp add: ex_fired_def)
  have first: "iz_X (ex_fired 1) ! (0 mod 2) = [0, 0]"
    using consumed_slot_cleared [OF i u] by (simp add: ex_net_def numeral_2_eq_2)
  have second: "iz_X ex_refired ! (1 mod 2) = [0, 0]"
    using consumed_slot_cleared [OF i2 ex_update_again]
    by (simp add: ex_fired_def ex_net_def numeral_2_eq_2)
  show ?thesis using i u i2 x2 ex_update_again first second by simp
qed

subsection \<open>C3: a delay beyond the buffer\<close>

text \<open>
  C3. The claim is that a connection whose delay is at least \<open>Dmax + 1\<close> never delivers.
  In the two-neuron network with \<open>Dmax = 1\<close> and a delay of 3 from neuron 0 to neuron 1,
  neuron 0 fires in the first step, and the total input current of neuron 1 in the second
  step is the weight 5 of that connection: the spike is delivered, one step after the
  firing.
\<close>

theorem long_delay_is_delivered:
  "new_network 2 1 [1 / 50, 1 / 50] [1 / 5, 1 / 5] [- 65, - 65] [8, 8] [[0, 5], [0, 0]]
     (IntArray Int64 [[1, 3], [1, 1]]) = Inr (ex_net 3) \<and>
   run_steps (ex_net 3) [[10000, 10000]] = (Inr [[0, 1]], ex_fired 3) \<and>
   total_current (ex_fired 3) = [0, 5]"
proof -
  have "new_network 2 1 [1 / 50, 1 / 50] [1 / 5, 1 / 5] [- 65, - 65] [8, 8] [[0, 5], [0, 0]]
     (IntArray Int64 [[1, 3], [1, 1]]) = Inr (ex_net 3)"
    by (rule ex_new) simp
  moreover have "run_steps (ex_net 3) [[10000, 10000]] = (Inr [[0, 1]], ex_fired 3)"
    by (rule ex_run) simp_all
  ultimately show ?thesis by (simp add: ex_fired_current)
qed

subsection \<open>C4: where a contribution lands\<close>




subsection \<open>C5: a neuron that has fired is frozen\<close>

text \<open>
  C5. Within one call of \<open>update()\<close>: if after \<open>k \<ge> 1\<close> passes of the integration loop the
  membrane potential of neuron \<open>j\<close> exceeds 30, then after any further \<open>m\<close> passes of the
  same call its membrane potential and its recovery variable are what they were after
  pass \<open>k\<close>.
\<close>

theorem fired_neuron_frozen:
  assumes "invar s" "j < iz_N s" "0 < k"
    and "loop_state s a b c d k = (vk, uk, fk)" "30 < vk ! j"
    and "loop_state s a b c d (k + m) = (vm, um, fm)"
  shows "vm ! j = vk ! j \<and> um ! j = uk ! j"
proof -
  have "k \<in> {1..k}" using assms(3) by simp
  moreover have "fst (loop_state s a b c d k) ! j > 30" using assms(4,5) by simp
  ultimately have f: "fk ! j" using loop_state_fired [OF assms(1,2,4)] by blast
  let ?st = "(reset_v (iz_lastFired s) c (iz_v s) ! j, reset_u (iz_lastFired s) d (iz_u s) ! j, False)"
  let ?nl = "\<lambda>i. neuron_loop i (iz_dt s) (a ! j) (b ! j) (total_current s ! j) ?st"
  have k: "?nl k = (vk ! j, uk ! j, True)"
    using loop_state_nth [OF assms(1,2,4)] f by simp
  have "(vm ! j, um ! j, fm ! j) = ?nl (k + m)"
    using loop_state_nth [OF assms(1,2,6)] by simp
  also have "\<dots> = (vk ! j, uk ! j, True)"
    unfolding neuron_loop_add k neuron_loop_frozen ..
  finally show ?thesis by simp
qed

theorem fired_neuron_frozen_witness:
  "invar ((ex_net 1)\<lparr>iz_I := [10000, 10000]\<rparr>) \<and>
   loop_state ((ex_net 1)\<lparr>iz_I := [10000, 10000]\<rparr>)
     [1 / 50, 1 / 50] [1 / 5, 1 / 5] [- 65, - 65] [8, 8] 1 =
     ([1867 / 2, 1867 / 2], [- (128 / 125), - (128 / 125)], [True, True]) \<and>
   (30::real) < [1867 / 2, 1867 / 2] ! 0 \<and>
   loop_state ((ex_net 1)\<lparr>iz_I := [10000, 10000]\<rparr>)
     [1 / 50, 1 / 50] [1 / 5, 1 / 5] [- 65, - 65] [8, 8] (1 + 9) =
     ([1867 / 2, 1867 / 2], [- (128 / 125), - (128 / 125)], [True, True])"
proof -
  have i: "invar ((ex_net 1)\<lparr>iz_I := [10000, 10000]\<rparr>)"
    by (rule ex_invar) simp
  have l10: "loop_state ((ex_net 1)\<lparr>iz_I := [10000, 10000]\<rparr>)
     [1 / 50, 1 / 50] [1 / 5, 1 / 5] [- 65, - 65] [8, 8] (1 + 9) =
     ([1867 / 2, 1867 / 2], [- (128 / 125), - (128 / 125)], [True, True])"
    using ex_loop [of 1] by simp
  have "[1867 / 2, 1867 / 2 :: real] ! 0 = [1867 / 2, 1867 / 2] ! 0 \<and>
        [- (128 / 125), - (128 / 125) :: real] ! 0 = [- (128 / 125), - (128 / 125)] ! 0"
    by (rule fired_neuron_frozen [OF i _ _ ex_loop_first _ l10]) (simp_all add: ex_net_def)
  then show ?thesis using i l10 ex_loop_first [of 1] by simp
qed

subsection \<open>C6: the reset of a neuron that fired\<close>

text \<open>
  C6, as amended. For a neuron \<open>j\<close> that fired in the previous call, the next call of
  \<open>update()\<close> starts its integration from the membrane potential \<open>c[j]\<close> and the
  recovery variable \<open>u[j] + d[j]\<close> (with \<open>u[j]\<close> as the firing call left it), and the
  values after that call are those of ten Euler passes from there with the input current
  of that step, the potential being set to 30 if the neuron fires again. They are not
  \<open>c[j]\<close> and \<open>u[j] + d[j]\<close> themselves.
\<close>

theorem reset_then_integrate:
  assumes "invar s" "update s = (Inr f, s')"
    and "iz_a s = Some a" "iz_b s = Some b" "iz_c s = Some c" "iz_d s = Some d"
    and "j < iz_N s" "iz_lastFired s ! j"
  shows "reset_v (iz_lastFired s) c (iz_v s) ! j = c ! j \<and>
         reset_u (iz_lastFired s) d (iz_u s) ! j = iz_u s ! j + d ! j \<and>
         (case neuron_loop 10 (1 / 10) (a ! j) (b ! j) (total_current s ! j)
                 (c ! j, iz_u s ! j + d ! j, False) of
            (v', u', fired') \<Rightarrow>
              iz_v s' ! j = (if fired' then 30 else v') \<and> iz_u s' ! j = u' \<and>
              (j \<in> set f) = fired')"
proof -
  from update_Inr [OF assms(1,2)] assms(3-6) obtain v' u' fired' X3 where
    l: "loop_state s a b c d 10 = (v', u', fired')" and
    f: "f = fired_idx_of fired'" and
    s': "s' = s\<lparr>iz_v := clamp_v fired' v', iz_u := u', iz_lastFired := fired',
                  iz_I := replicate (iz_N s) 0,
                  iz_X := X3[iz_cursor s mod iz_Dmax s := replicate (iz_N s) 0],
                  iz_cursor := iz_cursor s + 1\<rparr>"
    by auto
  from loop_state_lengths [OF assms(1) l] have len:
    "length v' = iz_N s" "length fired' = iz_N s" by simp_all
  have lv: "length (iz_v s) = iz_N s" and lu: "length (iz_u s) = iz_N s"
    using assms(1) by (simp_all add: invar_def)
  have rv: "reset_v (iz_lastFired s) c (iz_v s) ! j = c ! j"
    using assms(7,8) lv by (simp add: reset_v_def)
  have ru: "reset_u (iz_lastFired s) d (iz_u s) ! j = iz_u s ! j + d ! j"
    using assms(7,8) lu by (simp add: reset_u_def)
  have nl: "neuron_loop 10 (1 / 10) (a ! j) (b ! j) (total_current s ! j)
              (c ! j, iz_u s ! j + d ! j, False) = (v' ! j, u' ! j, fired' ! j)"
    using loop_state_nth [OF assms(1,7) l] unfolding rv ru invar_dt [OF assms(1)] by (rule sym)
  have mem: "j \<in> set f \<longleftrightarrow> fired' ! j"
    using assms(7) by (auto simp add: f fired_idx_of_def len)
  have "iz_v s' ! j = (if fired' ! j then 30 else v' ! j) \<and> iz_u s' ! j = u' ! j"
    using assms(7) len by (simp add: s' clamp_v_def)
  then show ?thesis
    unfolding nl using rv ru mem by simp
qed

theorem reset_then_integrate_witness:
  "invar ((ex_fired 1)\<lparr>iz_I := [10000, 10000]\<rparr>) \<and>
   update ((ex_fired 1)\<lparr>iz_I := [10000, 10000]\<rparr>) = (Inr [0, 1], ex_refired) \<and>
   iz_lastFired ((ex_fired 1)\<lparr>iz_I := [10000, 10000]\<rparr>) ! 0 \<and>
   neuron_loop 10 (1 / 10) (1 / 50) (1 / 5) 10000 (- 65, 872 / 125, False) =
     (582939 / 625, 433503 / 62500, True) \<and>
   iz_v ex_refired ! 0 = 30 \<and> iz_u ex_refired ! 0 = 433503 / 62500"
proof -
  let ?s = "(ex_fired 1)\<lparr>iz_I := [10000, 10000]\<rparr>"
  have i: "invar ?s" by (simp add: ex_fired_invar)
  have p: "iz_a ?s = Some [1 / 50, 1 / 50]" "iz_b ?s = Some [1 / 5, 1 / 5]"
    "iz_c ?s = Some [- 65, - 65]" "iz_d ?s = Some [8, 8]" "0 < iz_N ?s" "iz_lastFired ?s ! 0"
    by (simp_all add: ex_fired_def ex_net_def)
  have tc: "total_current ?s ! 0 = 10000"
    by (simp add: total_current_def ex_fired_def ex_net_def upt2)
  have u: "iz_u ?s ! 0 = - (128 / 125)" by (simp add: ex_fired_def)
  note r = reset_then_integrate [OF i ex_update_again p]
  have "iz_v ex_refired ! 0 = 30 \<and> iz_u ex_refired ! 0 = 433503 / 62500"
    using r unfolding tc u by (simp add: ex_neuron_again del: neuron_loop.simps)
  then show ?thesis using i ex_update_again p(6) ex_neuron_again by simp
qed

text \<open>
  The claim as stated fails. In the two-neuron network neuron 0 fires in the first step;
  in the next step its total input current is zero, the call returns, and the membrane
  potential of neuron 0 after it is below its reset parameter \<open>c = -65\<close>.
\<close>

theorem reset_value_not_kept:
  "update ((ex_net 1)\<lparr>iz_I := [10000, 10000]\<rparr>) = (Inr [0, 1], ex_fired 1) \<and>
   iz_c (ex_fired 1) = Some [- 65, - 65] \<and>
   total_current (ex_fired 1) ! 0 = 0 \<and>
   \<not> isl (fst (update (ex_fired 1))) \<and>
   iz_v (snd (update (ex_fired 1))) ! 0 < - 65"
proof -
  let ?s = "ex_fired 1"
  let ?a = "[1 / 50, 1 / 50 :: real]" and ?b = "[1 / 5, 1 / 5 :: real]"
  let ?c = "[- 65, - 65 :: real]" and ?d = "[8, 8 :: real]"
  have i: "invar ?s" using ex_fired_invar [of 1 "[0, 0]"] by (simp add: ex_fired_def ex_net_def)
  obtain v' u' fired' where l: "loop_state ?s ?a ?b ?c ?d 10 = (v', u', fired')"
    by (cases "loop_state ?s ?a ?b ?c ?d 10") auto
  have p: "0 < iz_Dmax ?s \<and> 0 < iz_N ?s" "iz_a ?s = Some ?a" "iz_b ?s = Some ?b" "iz_c ?s = Some ?c"
    "iz_d ?s = Some ?d" "iz_D ?s = Some (Int64, [[1, 1], [1, 1]])"
    "iz_W ?s = Some [[0, 5], [0, 0]]"
    by (simp_all add: ex_fired_def ex_net_def)
  have fit: "fired_idx_of fired' = [] \<or> fits Int64 ?s"
    by (simp add: fits_def dtype_max_def ex_fired_def ex_net_def)
  note u = update_ok [OF i p l fit]
  have len: "length v' = 2" "length fired' = 2"
    using loop_state_lengths [OF i l] by (simp_all add: ex_fired_def ex_net_def)
  have n0: "0 < iz_N ?s" by (simp add: ex_fired_def ex_net_def)
  have tc: "total_current ?s ! 0 = 0"
    by (simp add: total_current_def ex_fired_def ex_net_def upt2)
  have rv: "reset_v (iz_lastFired ?s) ?c (iz_v ?s) ! 0 = - 65"
    by (simp add: reset_v_def ex_fired_def upt2)
  have ru: "reset_u (iz_lastFired ?s) ?d (iz_u ?s) ! 0 = - (128 / 125) + 8"
    by (simp add: reset_u_def ex_fired_def upt2)
  have dt: "iz_dt ?s = 1 / 10" by (simp add: ex_fired_def ex_net_def)
  have ab: "?a ! 0 = 1 / 50" "?b ! 0 = 1 / 5" by simp_all
  have "neuron_loop 10 (1 / 10) (1 / 50) (1 / 5) 0 (- 65, - (128 / 125) + 8, False) =
        (v' ! 0, u' ! 0, fired' ! 0)"
    using loop_state_nth [OF i n0 l] unfolding tc rv ru dt ab by (rule sym)
  from recover_ten [OF this] have nf: "\<not> fired' ! 0" and lt: "v' ! 0 < - 65" by simp_all
  have "iz_v (snd (update ?s)) ! 0 = clamp_v fired' v' ! 0"
    unfolding u by simp
  also have "\<dots> = v' ! 0" using nf len by (simp add: clamp_v_def)
  finally have v: "iz_v (snd (update ?s)) ! 0 < - 65" using lt by simp
  have ok: "\<not> isl (fst (update ?s))" unfolding u by simp
  have first: "update ((ex_net 1)\<lparr>iz_I := [10000, 10000]\<rparr>) = (Inr [0, 1], ex_fired 1)"
    by (rule ex_update) simp_all
  show ?thesis using first p(4) tc ok v by simp
qed

subsection \<open>C7: the firing set\<close>

text \<open>
  C7. A call of \<open>update()\<close> returns, in increasing order, exactly the indices of the
  neurons whose membrane potential exceeded 30 at the end of one of the ten passes of its
  integration loop; after the call the membrane potential of each of them is 30, and the
  new \<open>_lastFired\<close> mask is true at exactly these indices.
\<close>

theorem firing_set_postcondition:
  assumes "invar s" "update s = (Inr f, s')"
    and "iz_a s = Some a" "iz_b s = Some b" "iz_c s = Some c" "iz_d s = Some d"
  shows "f = filter (\<lambda>j. \<exists>k\<in>{1..10}. fst (loop_state s a b c d k) ! j > 30) [0..<iz_N s] \<and>
         (\<forall>j\<in>set f. iz_v s' ! j = 30) \<and>
         iz_lastFired s' = map (\<lambda>j. j \<in> set f) [0..<iz_N s]"
proof -
  from update_Inr [OF assms(1,2)] assms(3-6) obtain v' u' fired' X3 where
    l: "loop_state s a b c d 10 = (v', u', fired')" and
    f: "f = fired_idx_of fired'" and
    s': "s' = s\<lparr>iz_v := clamp_v fired' v', iz_u := u', iz_lastFired := fired',
                  iz_I := replicate (iz_N s) 0,
                  iz_X := X3[iz_cursor s mod iz_Dmax s := replicate (iz_N s) 0],
                  iz_cursor := iz_cursor s + 1\<rparr>"
    by auto
  from loop_state_lengths [OF assms(1) l] have len:
    "length v' = iz_N s" "length fired' = iz_N s" by simp_all
  define P where "P = (\<lambda>j. \<exists>k\<in>{1..10}. fst (loop_state s a b c d k) ! j > 30)"
  have fired: "fired' ! j = P j" if "j < iz_N s" for j
    unfolding P_def using loop_state_fired [OF assms(1) that l] .
  have 1: "f = filter P [0..<iz_N s]"
    unfolding f fired_idx_of_def len
    by (rule filter_cong [OF refl]) (simp add: fired)
  have mem: "j \<in> set f \<longleftrightarrow> j < iz_N s \<and> fired' ! j" for j
    by (auto simp add: f fired_idx_of_def len)
  have 2: "\<forall>j\<in>set f. iz_v s' ! j = 30"
  proof
    fix j
    assume "j \<in> set f"
    then have "j < length v'" "fired' ! j" using mem len by simp_all
    then show "iz_v s' ! j = 30" by (simp add: s' clamp_v_def)
  qed
  have 3: "iz_lastFired s' = map (\<lambda>j. j \<in> set f) [0..<iz_N s]"
  proof (rule nth_equalityI)
    show "length (iz_lastFired s') = length (map (\<lambda>j. j \<in> set f) [0..<iz_N s])"
      using len by (simp add: s')
  next
    fix i
    assume "i < length (iz_lastFired s')"
    then have "i < iz_N s" using len by (simp add: s')
    then show "iz_lastFired s' ! i = map (\<lambda>j. j \<in> set f) [0..<iz_N s] ! i"
      using mem by (simp add: s')
  qed
  show ?thesis
    using 1 [unfolded P_def] 2 3 by (intro conjI)
qed

theorem firing_set_postcondition_witness:
  "invar ((ex_net 1)\<lparr>iz_I := [10000, 10000]\<rparr>) \<and>
   update ((ex_net 1)\<lparr>iz_I := [10000, 10000]\<rparr>) = (Inr [0, 1], ex_fired 1) \<and>
   iz_v (ex_fired 1) = [30, 30] \<and>
   iz_lastFired (ex_fired 1) = map (\<lambda>j. j \<in> set [0, 1]) [0..<2]"
proof -
  let ?s = "(ex_net 1)\<lparr>iz_I := [10000, 10000]\<rparr>"
  have i: "invar ?s" by (rule ex_invar) simp
  have u: "update ?s = (Inr [0, 1], ex_fired 1)" by (rule ex_update) simp_all
  have p: "iz_a ?s = Some [1 / 50, 1 / 50]" "iz_b ?s = Some [1 / 5, 1 / 5]"
    "iz_c ?s = Some [- 65, - 65]" "iz_d ?s = Some [8, 8]"
    by (simp_all add: ex_net_def)
  have n: "iz_N ?s = 2" by (simp add: ex_net_def)
  from firing_set_postcondition [OF i u p]
  have "iz_lastFired (ex_fired 1) = map (\<lambda>j. j \<in> set [0, 1]) [0..<2]"
    unfolding n by blast
  moreover have "iz_v (ex_fired 1) = [30, 30]" by (simp add: ex_fired_def)
  ultimately show ?thesis using i u by blast
qed

subsection \<open>C8: validation of the delay matrix\<close>

text \<open>
  C8. \<open>setDelays(D)\<close> raises exactly when \<open>D\<close> is not of shape \<open>N\<close> by \<open>N\<close>, or is not an
  integer array, or has an entry below 1. When it raises, the object is as before the
  call; when it returns, \<open>D\<close> is stored as the delay matrix and nothing else changes, so
  no entry is compared with \<open>Dmax\<close>.
\<close>

theorem setDelays_validation:
  "(fst (setDelays D s) \<noteq> Inr () \<longleftrightarrow>
      (\<not> ndarray_has_shape D (iz_N s) (iz_N s) \<or> (\<forall>dt M. D \<noteq> IntArray dt M) \<or>
       (\<exists>dt M. D = IntArray dt M \<and> (\<exists>row\<in>set M. \<exists>x\<in>set row. x < 1)))) \<and>
   (fst (setDelays D s) \<noteq> Inr () \<longrightarrow> snd (setDelays D s) = s) \<and>
   (fst (setDelays D s) = Inr () \<longrightarrow>
      (\<exists>dt M. D = IntArray dt M \<and> snd (setDelays D s) = s\<lparr>iz_D := Some (dt, M)\<rparr>))"
proof (cases D)
  case (IntArray dt M)
  have "(\<not> list_all (list_all (\<lambda>x. 1 \<le> x)) M) = (\<exists>row\<in>set M. \<exists>x\<in>set row. x < 1)"
    by (auto simp add: list_all_iff not_le)
  then show ?thesis
    unfolding IntArray setDelays_IntArray by auto
next
  case (FloatArray M)
  then show ?thesis using setDelays_not_int [of D s] by auto
next
  case (BoolArray M)
  then show ?thesis using setDelays_not_int [of D s] by auto
qed

theorem setDelays_validation_witness:
  "setDelays (IntArray Int64 [[1, 25], [3, 1]]) (ex_net 1) =
     (Inr (), (ex_net 1)\<lparr>iz_D := Some (Int64, [[1, 25], [3, 1]])\<rparr>) \<and>
   setDelays (IntArray Int64 [[1, 0], [3, 1]]) (ex_net 1) =
     (Inl (Exception ''Delays must be strictly positive.''), ex_net 1) \<and>
   setDelays (FloatArray [[1, 1], [1, 1]]) (ex_net 1) =
     (Inl (Exception ''Delays must be integer numbers.''), ex_net 1) \<and>
   setDelays (IntArray Int64 [[1, 1, 1], [1, 1, 1]]) (ex_net 1) =
     (Inl (Exception ''Delay matrix must be N-by-N.''), ex_net 1)"
  using setDelays_validation [of "IntArray Int64 [[1, 25], [3, 1]]" "ex_net 1"]
    setDelays_validation [of "IntArray Int64 [[1, 0], [3, 1]]" "ex_net 1"]
  by (simp add: setDelays_def has_shape_def ex_net_def)

subsection \<open>C10: an engine without neurons\<close>



end
